theory Spec2Isabelle
  imports Main "HOL-Library.Word"
begin

section \<open>Data model of the Redis stream worker (redis.go)\<close>

text \<open>
  The worker talks to three things outside itself: the Redis client, the logger and the
  Go channels \<open>stop\<close>, \<open>exit\<close> and \<open>tasks\<close>. Every call to one of them is recorded as
  an \<open>effect\<close>, together with the answer the environment gave, so that a run of a
  function is the list of effects it performed, in order. What the environment answers
  (a read result, which case of a \<open>select\<close> fires, whether a store call fails) is an
  input of the model.
\<close>

text \<open>Errors of the Redis client: \<open>redis.Nil\<close> and any other error.\<close>

datatype redis_err = RedisNil | RedisError string

text \<open>The three sentinel errors of package \<open>queue\<close> that the worker returns.\<close>

datatype queue_error = ErrQueueShutdown | ErrNoTaskInQueue | ErrQueueHasBeenClosed

text \<open>
  A Go \<open>interface{}\<close> value as it occurs in a field map: a string, or a value of some
  other dynamic type. A key that is absent from a Go map reads as the nil interface;
  in the model the lookup gives \<open>None\<close>.
\<close>

datatype iface = IString string | IInt int | IBool bool

type_synonym field_map = "string \<rightharpoonup> iface"

record xmessage =
  ID :: string
  Values :: field_map

record xstream =
  Stream :: string
  Messages :: "xmessage list"

text \<open>The fields of the worker's options that \<open>redis.go\<close> reads.\<close>

record options =
  streamName :: string
  group :: string
  consumer :: string
  blockTime :: int
  maxLength :: int

datatype rdb_kind = Client | ClusterClient | OtherCmdable

record worker =
  stopFlag :: "32 word"
  stopOnce :: bool
  startOnce :: bool
  rdb :: rdb_kind
  opts :: options

datatype logmsg =
    NoDataWhileReading
  | ErrorWhileReading redis_err
  | CantAckMessage string
  | RequeueTheTask string
  | ErrorToRequeue string
  | GroupCreateError redis_err

datatype wait_outcome = ExitObserved | GraceTimeout

datatype effect =
    XGroupCreateMkStream string string string "redis_err option"
  | GoFetchTask
  | XReadGroup string string "string list" int int "redis_err + xstream list"
  | LogInfo logmsg
  | LogError logmsg
  | Send xmessage
  | XAck string string string "redis_err option"
  | XAdd string int field_map "redis_err option"
  | CloseExit
  | CloseStop
  | WaitRequeue wait_outcome nat
  | RdbClose
  | CloseTasks

section \<open>queue and Queue\<close>

definition BytesToStr :: "string \<Rightarrow> string" where
  "BytesToStr b = b"

definition StrToBytes :: "string \<Rightarrow> string" where
  "StrToBytes s = s"

text \<open>
  \<open>queue\<close> publishes one entry with \<open>XAdd\<close> and returns the store's error;
  \<open>xadd_err\<close> is the answer of the store.
\<close>

definition queue :: "worker \<Rightarrow> field_map \<Rightarrow> redis_err option \<Rightarrow> effect list \<times> redis_err option" where
  "queue w data xadd_err =
     ([XAdd (streamName (opts w)) (maxLength (opts w)) data xadd_err], xadd_err)"

datatype go_error = QueueErr queue_error | StoreErr redis_err

text \<open>\<open>Queue\<close>; \<open>task_bytes\<close> is the result of \<open>task.Bytes()\<close>.\<close>

definition Queue :: "worker \<Rightarrow> string \<Rightarrow> redis_err option \<Rightarrow> effect list \<times> go_error option" where
  "Queue w task_bytes xadd_err =
     (if stopFlag w = 1 then ([], Some (QueueErr ErrQueueShutdown))
      else (case queue w (Map.empty(''body'' \<mapsto> IString (BytesToStr task_bytes))) xadd_err of
              (effs, err) \<Rightarrow> (effs, map_option StoreErr err)))"

section \<open>The consumer loop fetchTask\<close>

text \<open>
  The \<open>select\<close> of the handoff has two cases. Which one fires is decided by the
  environment: a receiver took the entry from \<open>tasks\<close> (\<open>TaskSent\<close>, with the answer of
  the following \<open>XAck\<close>), or \<open>stop\<close> was readable (\<open>StopRecv\<close>, with the answer of the
  following \<open>XAdd\<close>). A send that is chosen on a closed \<open>tasks\<close> channel panics
  (\<open>SendOnClosed\<close>).
\<close>

datatype handoff = TaskSent "redis_err option" | StopRecv "redis_err option" | SendOnClosed

datatype flow = Continue | Return | Blocked | Panic

text \<open>
  The inner \<open>for\<close> over \<open>result.Messages\<close>, with the \<open>select\<close> as its body: one
  equation for each case that can fire. The list of handoff outcomes is consumed one
  per entry; when it is used up while an entry waits in the \<open>select\<close>, the loop is
  blocked there.
\<close>

fun range_Messages :: "worker \<Rightarrow> xmessage list \<Rightarrow> handoff list \<Rightarrow> effect list \<times> flow \<times> handoff list" where
  "range_Messages w [] hs = ([], Continue, hs)"
| "range_Messages w (message # ms) [] = ([], Blocked, [])"
| "range_Messages w (message # ms) (TaskSent ack_err # hs) =
     (case range_Messages w ms hs of (effs, fl, hs') \<Rightarrow>
        (Send message
         # XAck (streamName (opts w)) (group (opts w)) (ID message) ack_err
         # (case ack_err of None \<Rightarrow> [] | Some _ \<Rightarrow> [LogError (CantAckMessage (ID message))])
         @ effs, fl, hs'))"
| "range_Messages w (message # ms) (StopRecv xadd_err # hs) =
     (LogInfo (RequeueTheTask (ID message))
      # (case queue w (Values message) xadd_err of
           (effs, None) \<Rightarrow> effs
         | (effs, Some _) \<Rightarrow> effs @ [LogError (ErrorToRequeue (ID message))])
      @ [CloseExit],
      Return, hs)"
| "range_Messages w (message # ms) (SendOnClosed # hs) = ([], Panic, hs)"

text \<open>The outer \<open>for\<close> over \<open>data\<close>.\<close>

fun range_data :: "worker \<Rightarrow> xstream list \<Rightarrow> handoff list \<Rightarrow> effect list \<times> flow \<times> handoff list" where
  "range_data w [] hs = ([], Continue, hs)"
| "range_data w (result # rs) hs =
     (case range_Messages w (Messages result) hs of
        (effs, Continue, hs') \<Rightarrow>
          (case range_data w rs hs' of (effs', fl, hs'') \<Rightarrow> (effs @ effs', fl, hs''))
      | (effs, fl, hs') \<Rightarrow> (effs, fl, hs'))"

text \<open>
  One pass of the outer \<open>for\<close> loop as the environment sees it: either \<open>stop\<close> is
  readable at the non-blocking check at the top, or the check falls through to
  \<open>default\<close> and \<open>XReadGroup\<close> answers with an error or with data; the handoff outcomes
  belong to the entries of that answer.
\<close>

datatype iteration =
    StopAtCheck
  | ReadFails redis_err
  | ReadData "xstream list" "handoff list"

datatype status = Running | Returned | BlockedInSelect | Panicked

definition read_call :: "worker \<Rightarrow> redis_err + xstream list \<Rightarrow> effect" where
  "read_call w res =
     XReadGroup (group (opts w)) (consumer (opts w)) [streamName (opts w), ''>'']
       1 (blockTime (opts w)) res"

text \<open>What the loop logs when \<open>XReadGroup\<close> returns an error.\<close>

definition log_read_error :: "redis_err \<Rightarrow> effect" where
  "log_read_error err =
     (if err = RedisNil then LogInfo NoDataWhileReading
      else LogError (ErrorWhileReading err))"

text \<open>
  \<open>fetchTask\<close> on a finite script of iterations. When the script is used up the loop
  is still running (\<open>Running\<close>): the script describes a prefix of a run that need not end.
\<close>

fun fetchTask :: "worker \<Rightarrow> iteration list \<Rightarrow> effect list \<times> status" where
  "fetchTask w [] = ([], Running)"
| "fetchTask w (StopAtCheck # rest) = ([], Returned)"
| "fetchTask w (ReadFails err # rest) =
     (case fetchTask w rest of (effs, st) \<Rightarrow>
        (read_call w (Inl err) # log_read_error err # effs, st))"
| "fetchTask w (ReadData data hs # rest) =
     (case range_data w data hs of
        (effs, Continue, _) \<Rightarrow>
          (case fetchTask w rest of (effs', st) \<Rightarrow> (read_call w (Inr data) # effs @ effs', st))
      | (effs, Return, _) \<Rightarrow> (read_call w (Inr data) # effs, Returned)
      | (effs, Blocked, _) \<Rightarrow> (read_call w (Inr data) # effs, BlockedInSelect)
      | (effs, Panic, _) \<Rightarrow> (read_call w (Inr data) # effs, Panicked))"

section \<open>NewWorker and Shutdown\<close>

text \<open>
  The struct literal of \<open>NewWorker\<close>: the fields it does not set start at their zero
  values. The construction of the client is left out; \<open>kind\<close> is the client it built.
\<close>

definition NewWorker :: "options \<Rightarrow> rdb_kind \<Rightarrow> worker" where
  "NewWorker os kind =
     \<lparr>stopFlag = 0, stopOnce = False, startOnce = False, rdb = kind, opts = os\<rparr>"

text \<open>\<open>atomic.CompareAndSwapInt32\<close>: the new content of the address and whether it swapped.\<close>

definition CompareAndSwapInt32 :: "32 word \<Rightarrow> 32 word \<Rightarrow> 32 word \<Rightarrow> 32 word \<times> bool" where
  "CompareAndSwapInt32 cur old new = (if cur = old then (new, True) else (cur, False))"

text \<open>
  The \<open>select\<close> that waits for the requeue, in ticks of one millisecond:
  \<open>exit_closed t\<close> says whether \<open>exit\<close> is readable \<open>t\<close> ms after the wait began;
  \<open>time.After(200 * time.Millisecond)\<close> fires at tick 200.
\<close>

function wait_requeue :: "(nat \<Rightarrow> bool) \<Rightarrow> nat \<Rightarrow> wait_outcome \<times> nat" where
  "wait_requeue exit_closed t =
     (if exit_closed t then (ExitObserved, t)
      else if 200 \<le> t then (GraceTimeout, t)
      else wait_requeue exit_closed (Suc t))"
  by pat_completeness auto
termination
  by (relation "measure (\<lambda>(exit_closed, t). 200 - t)") auto

text \<open>The function handed to \<open>stopOnce.Do\<close>.\<close>

definition shutdown_body :: "worker \<Rightarrow> (nat \<Rightarrow> bool) \<Rightarrow> effect list" where
  "shutdown_body w exit_closed =
     [CloseStop,
      (case wait_requeue exit_closed 0 of (outcome, t) \<Rightarrow> WaitRequeue outcome t)]
     @ (case rdb w of Client \<Rightarrow> [RdbClose] | ClusterClient \<Rightarrow> [RdbClose] | OtherCmdable \<Rightarrow> [])
     @ [CloseTasks]"

definition stopOnce_Do :: "worker \<Rightarrow> (nat \<Rightarrow> bool) \<Rightarrow> worker \<times> effect list" where
  "stopOnce_Do w exit_closed =
     (if stopOnce w then (w, [])
      else (w\<lparr>stopOnce := True\<rparr>, shutdown_body w exit_closed))"

definition Shutdown :: "worker \<Rightarrow> (nat \<Rightarrow> bool) \<Rightarrow> worker \<times> effect list \<times> queue_error option" where
  "Shutdown w exit_closed =
     (case CompareAndSwapInt32 (stopFlag w) 0 1 of
        (v, False) \<Rightarrow> (w, [], Some ErrQueueShutdown)
      | (v, True) \<Rightarrow>
          (case stopOnce_Do (w\<lparr>stopFlag := v\<rparr>) exit_closed of
             (w', effs) \<Rightarrow> (w', effs, None)))"

subsection \<open>Concurrent calls of Shutdown\<close>

text \<open>
  Several goroutines call \<open>Shutdown\<close> on one worker. A call has two atomic steps: the
  compare-and-swap, and then, for the call that swapped, \<open>stopOnce.Do\<close>. A schedule is
  the order in which the calls take their steps. Effects are tagged with the call that
  performed them; \<open>exits i\<close> is what call \<open>i\<close> would see on \<open>exit\<close>.
\<close>

datatype pc = AtCAS | AtOnce | Finished "queue_error option"

record sys =
  wk :: worker
  pcs :: "pc list"
  trace :: "(nat \<times> effect) list"

definition step :: "(nat \<Rightarrow> nat \<Rightarrow> bool) \<Rightarrow> sys \<Rightarrow> nat \<Rightarrow> sys" where
  "step exits s i =
     (if i < length (pcs s) then
        (case pcs s ! i of
           AtCAS \<Rightarrow>
             (case CompareAndSwapInt32 (stopFlag (wk s)) 0 1 of
                (v, False) \<Rightarrow> s\<lparr>pcs := (pcs s)[i := Finished (Some ErrQueueShutdown)]\<rparr>
              | (v, True) \<Rightarrow> s\<lparr>wk := (wk s)\<lparr>stopFlag := v\<rparr>, pcs := (pcs s)[i := AtOnce]\<rparr>)
         | AtOnce \<Rightarrow>
             (case stopOnce_Do (wk s) (exits i) of
                (w', effs) \<Rightarrow>
                  s\<lparr>wk := w', pcs := (pcs s)[i := Finished None],
                    trace := trace s @ map (Pair i) effs\<rparr>)
         | Finished r \<Rightarrow> s)
      else s)"

definition run :: "(nat \<Rightarrow> nat \<Rightarrow> bool) \<Rightarrow> sys \<Rightarrow> nat list \<Rightarrow> sys" where
  "run exits s sched = foldl (step exits) s sched"

definition init :: "worker \<Rightarrow> nat \<Rightarrow> sys" where
  "init w n = \<lparr>wk = w, pcs = replicate n AtCAS, trace = []\<rparr>"

definition won :: "pc \<Rightarrow> bool" where
  "won p = (p = AtOnce \<or> p = Finished None)"

definition finished :: "pc \<Rightarrow> bool" where
  "finished p = (case p of Finished r \<Rightarrow> True | _ \<Rightarrow> False)"

text \<open>
  What holds in every state that the calls can reach: either no call has swapped the
  flag yet, or exactly one call \<open>i\<close> has, the others are before their compare-and-swap
  or have returned \<open>ErrQueueShutdown\<close>, and the effects so far are none (call \<open>i\<close> is
  about to run \<open>stopOnce.Do\<close>) or the shutdown sequence performed by call \<open>i\<close>.
\<close>

definition shutdown_inv :: "worker \<Rightarrow> (nat \<Rightarrow> nat \<Rightarrow> bool) \<Rightarrow> nat \<Rightarrow> sys \<Rightarrow> bool" where
  "shutdown_inv w exits n s \<longleftrightarrow>
     length (pcs s) = n \<and> rdb (wk s) = rdb w \<and>
     ((stopFlag (wk s) = 0 \<and> \<not> stopOnce (wk s) \<and> trace s = [] \<and> (\<forall>j<n. pcs s ! j = AtCAS))
      \<or> (stopFlag (wk s) = 1 \<and>
          (\<exists>i<n. (\<forall>j<n. j \<noteq> i \<longrightarrow>
                      pcs s ! j = AtCAS \<or> pcs s ! j = Finished (Some ErrQueueShutdown)) \<and>
                 (pcs s ! i = AtOnce \<and> \<not> stopOnce (wk s) \<and> trace s = [] \<or>
                  pcs s ! i = Finished None \<and> stopOnce (wk s) \<and>
                  trace s = map (Pair i) (shutdown_body w (exits i))))))"

section \<open>startConsumer and Request\<close>

definition Error :: "redis_err \<Rightarrow> string" where
  "Error err = (case err of RedisNil \<Rightarrow> ''redis: nil'' | RedisError s \<Rightarrow> s)"

definition startConsumer :: "worker \<Rightarrow> redis_err option \<Rightarrow> worker \<times> effect list" where
  "startConsumer w create_err =
     (if startOnce w then (w, [])
      else (w\<lparr>startOnce := True\<rparr>,
            XGroupCreateMkStream (streamName (opts w)) (group (opts w)) ''$'' create_err
            # (case create_err of
                 None \<Rightarrow> []
               | Some err \<Rightarrow>
                   (if Error err = ''BUSYGROUP Consumer Group name already exists''
                    then [LogInfo (GroupCreateError err)]
                    else [LogError (GroupCreateError err)]))
            @ [GoFetchTask]))"

text \<open>
  What one pass of the \<open>select\<close> in \<open>Request\<close> sees: an entry received from \<open>tasks\<close>,
  \<open>tasks\<close> closed, or \<open>time.After(1 * time.Second)\<close> firing first.
\<close>

datatype poll = Recv xmessage | ChanClosed | Timeout

text \<open>
  The result of \<open>Request\<close>: the pair it returns (the task or nil, the error or nil), a
  panic of the type assertion, or still polling when the script of passes is used up.
\<close>

datatype 'm request_outcome =
    Returns "'m option" "queue_error option"
  | TypeAssertionPanic
  | StillPolling

text \<open>
  \<open>json.Unmarshal\<close> and \<open>job.Message\<close> belong to libraries: \<open>unmarshal b v\<close> is the
  content of the target variable after the call on bytes \<open>b\<close> when it held \<open>v\<close> before,
  and the error returned; \<open>zero\<close> is the zero value of \<open>job.Message\<close>.
\<close>

type_synonym 'm unmarshal = "string \<Rightarrow> 'm \<Rightarrow> 'm \<times> string option"

text \<open>
  The loop labelled \<open>loop\<close>; the second component counts the seconds spent in passes
  that timed out.
\<close>

fun request_loop :: "'m unmarshal \<Rightarrow> 'm \<Rightarrow> int \<Rightarrow> poll list \<Rightarrow> 'm request_outcome \<times> nat" where
  "request_loop unmarshal zero clock [] = (StillPolling, 0)"
| "request_loop unmarshal zero clock (Recv task # rest) =
     (case Values task ''body'' of
        Some (IString s) \<Rightarrow> (Returns (Some (fst (unmarshal (StrToBytes s) zero))) None, 0)
      | _ \<Rightarrow> (TypeAssertionPanic, 0))"
| "request_loop unmarshal zero clock (ChanClosed # rest) =
     (Returns None (Some ErrQueueHasBeenClosed), 0)"
| "request_loop unmarshal zero clock (Timeout # rest) =
     (if clock = 5 then (Returns None (Some ErrNoTaskInQueue), 1)
      else (case request_loop unmarshal zero (clock + 1) rest of
              (res, waited) \<Rightarrow> (res, Suc waited)))"

definition Request ::
  "'m unmarshal \<Rightarrow> 'm \<Rightarrow> worker \<Rightarrow> redis_err option \<Rightarrow> poll list
     \<Rightarrow> worker \<times> effect list \<times> 'm request_outcome \<times> nat" where
  "Request unmarshal zero w create_err polls =
     (case startConsumer w create_err of
        (w', effs) \<Rightarrow> (w', effs, request_loop unmarshal zero 0 polls))"

section \<open>Observations on a run\<close>

definition exit_closes :: "effect list \<Rightarrow> nat" where
  "exit_closes tr = length (filter (\<lambda>e. e = CloseExit) tr)"

fun entries_of :: "effect \<Rightarrow> xmessage list" where
  "entries_of (XReadGroup g c ss n b (Inr data)) = concat (map Messages data)"
| "entries_of e = []"

definition read_entries :: "effect list \<Rightarrow> xmessage list" where
  "read_entries tr = concat (map entries_of tr)"

definition single_reads :: "effect list \<Rightarrow> bool" where
  "single_reads tr = list_all (\<lambda>e. length (entries_of e) \<le> 1) tr"

fun is_ack :: "string \<Rightarrow> effect \<Rightarrow> bool" where
  "is_ack i (XAck s g j r) = (j = i)"
| "is_ack i e = False"

fun is_send :: "string \<Rightarrow> effect \<Rightarrow> bool" where
  "is_send i (Send m) = (ID m = i)"
| "is_send i e = False"

fun xadd_of :: "effect \<Rightarrow> field_map list" where
  "xadd_of (XAdd s n v r) = [v]"
| "xadd_of e = []"

definition acks :: "string \<Rightarrow> effect list \<Rightarrow> nat" where
  "acks i tr = length (filter (is_ack i) tr)"

definition sends :: "string \<Rightarrow> effect list \<Rightarrow> nat" where
  "sends i tr = length (filter (is_send i) tr)"

definition requeues :: "string \<Rightarrow> effect list \<Rightarrow> nat" where
  "requeues i tr = length (filter (\<lambda>e. e = LogInfo (RequeueTheTask i)) tr)"

definition xadd_values :: "effect list \<Rightarrow> field_map list" where
  "xadd_values tr = concat (map xadd_of tr)"

text \<open>
  \<open>handoff_acks w i tr\<close> counts the places of a run where an entry with ID \<open>i\<close> is sent
  on \<open>tasks\<close> and the very next effect is the \<open>XAck\<close> of \<open>i\<close> on the worker's stream
  and group. \<open>requeue_adds w m tr\<close> counts the places where the requeue of entry \<open>m\<close> is
  logged and the very next effect is the \<open>XAdd\<close> of the field map of \<open>m\<close> on the
  worker's stream with its \<open>MaxLen\<close>.
\<close>

fun handoff_acks :: "worker \<Rightarrow> string \<Rightarrow> effect list \<Rightarrow> nat" where
  "handoff_acks w i (Send m # XAck s g j r # tr) =
     (if ID m = i \<and> s = streamName (opts w) \<and> g = group (opts w) \<and> j = i then 1 else 0)
     + handoff_acks w i tr"
| "handoff_acks w i (e # tr) = handoff_acks w i tr"
| "handoff_acks w i [] = 0"

fun requeue_adds :: "worker \<Rightarrow> xmessage \<Rightarrow> effect list \<Rightarrow> nat" where
  "requeue_adds w m (LogInfo l # XAdd s n v r # tr) =
     (if l = RequeueTheTask (ID m) \<and> s = streamName (opts w) \<and> n = maxLength (opts w)
         \<and> v = Values m then 1 else 0)
     + requeue_adds w m tr"
| "requeue_adds w m (e # tr) = requeue_adds w m tr"
| "requeue_adds w m [] = 0"

fun is_XAck :: "effect \<Rightarrow> bool" where
  "is_XAck (XAck s g j r) = True"
| "is_XAck e = False"

fun is_XAdd :: "effect \<Rightarrow> bool" where
  "is_XAdd (XAdd s n v r) = True"
| "is_XAdd e = False"



section \<open>Sample values\<close>

definition sample_options :: options where
  "sample_options =
     \<lparr>streamName = ''golang-queue'', group = ''golang-queue'', consumer = ''golang-queue'',
      blockTime = 60000000000, maxLength = 0\<rparr>"

definition sample_worker :: worker where
  "sample_worker = NewWorker sample_options Client"

text \<open>
  A stand-in decoder over messages that are plain strings: bytes that start with an
  opening brace decode to themselves, anything else is an error that leaves the target
  as it was.
\<close>

definition sample_unmarshal :: "string unmarshal" where
  "sample_unmarshal b v =
     (case b of
        c # cs \<Rightarrow> (if c = CHR ''{'' then (b, None) else (v, Some ''invalid character''))
      | [] \<Rightarrow> (v, Some ''unexpected end of JSON input''))"

text \<open>
  A stand-in decoder over messages that are a pair (timeout, payload). Like
  \<open>encoding/json\<close> on an object in which one field has a value of the wrong type, it
  has stored the field it could decode when it returns the error.
\<close>

definition partial_unmarshal :: "(int \<times> string) unmarshal" where
  "partial_unmarshal b v =
     (if b = ''{timeout:3,body:5}''
      then ((3, snd v), Some ''json: cannot unmarshal number into Go struct field'')
      else (v, Some ''invalid character''))"

definition sample_entry :: "string \<Rightarrow> string \<Rightarrow> xmessage" where
  "sample_entry i body = \<lparr>ID = i, Values = Map.empty(''body'' \<mapsto> IString body)\<rparr>"

section \<open>Request: timeouts, closed channel, decoding\<close>

lemma request_loop_timeouts:
  "0 \<le> clock \<Longrightarrow> clock \<le> 5 \<Longrightarrow>
   request_loop um z clock (replicate n Timeout @ rest) =
     (if nat (5 - clock) < n then (Returns None (Some ErrNoTaskInQueue), nat (6 - clock))
      else (case request_loop um z (clock + int n) rest of (res, waited) \<Rightarrow> (res, n + waited)))"
proof (induction n arbitrary: clock)
  case 0
  then show ?case by (simp split: prod.splits)
next
  case (Suc n)
  show ?case
  proof (cases "clock = 5")
    case True
    then show ?thesis by simp
  next
    case False
    with Suc.prems have c: "0 \<le> clock + 1" "clock + 1 \<le> 5" by auto
    have eq: "nat (5 - clock) = Suc (nat (5 - (clock + 1)))"
      "nat (6 - clock) = Suc (nat (6 - (clock + 1)))"
      using c Suc.prems by auto
    show ?thesis
      using False Suc.IH[OF c]
      by (simp add: eq add.assoc split: prod.splits)
  qed
qed

lemma request_loop_after_timeouts:
  "k \<le> 5 \<Longrightarrow> request_loop um z 0 (replicate k Timeout @ p # rest) =
     (case request_loop um z (int k) (p # rest) of (res, waited) \<Rightarrow> (res, k + waited))"
  using request_loop_timeouts[of 0 um z k "p # rest"] by simp

text \<open>
  C3, as stated, fails: after five consecutive timeouts \<open>Request\<close> has not returned.
  The counter is compared with 5 before it is incremented, so the first five timeouts
  raise it from 0 to 5 and only the sixth leaves the loop.
\<close>

theorem Request_five_timeouts_still_polling:
  "snd (snd (Request sample_unmarshal [] sample_worker None (replicate 5 Timeout)))
     = (StillPolling, 5)
   \<and> snd (snd (Request sample_unmarshal [] sample_worker None (replicate 6 Timeout)))
     = (Returns None (Some ErrNoTaskInQueue), 6)"
  by (simp add: Request_def numeral_eq_Suc split: prod.splits)

text \<open>
  C3 (amended): when no entry arrives and \<open>tasks\<close> is never closed, every pass of the
  \<open>select\<close> ends by the one-second timeout; \<open>Request\<close> is still polling after any number
  of timeouts below six, and on the sixth consecutive timeout (six seconds in all) it
  returns nil and \<open>ErrNoTaskInQueue\<close>.
\<close>

theorem Request_six_timeouts:
  "snd (snd (Request um z w ce (replicate n Timeout)))
     = (if 6 \<le> n then (Returns None (Some ErrNoTaskInQueue), 6) else (StillPolling, n))"
  using request_loop_timeouts[of 0 um z n "[]"]
  by (auto simp: Request_def split: prod.splits)

theorem Request_six_timeouts_witness:
  "snd (snd (Request sample_unmarshal [] sample_worker None (replicate 7 Timeout)))
     = (Returns None (Some ErrNoTaskInQueue), 6)
   \<and> snd (snd (Request sample_unmarshal [] sample_worker None (replicate 3 Timeout)))
     = (StillPolling, 3)"
  using Request_six_timeouts[of sample_unmarshal "[]" sample_worker None 7]
    Request_six_timeouts[of sample_unmarshal "[]" sample_worker None 3]
  by simp

text \<open>
  C6: a \<open>Request\<close> call that finds \<open>tasks\<close> closed (after at most five timeouts, so
  while it is still polling) returns nil and \<open>ErrQueueHasBeenClosed\<close>; the call that
  times out returns \<open>ErrNoTaskInQueue\<close>, and the two errors are different values.
\<close>

theorem Request_closed:
  "k \<le> 5 \<Longrightarrow>
     snd (snd (Request um z w ce (replicate k Timeout @ ChanClosed # rest)))
       = (Returns None (Some ErrQueueHasBeenClosed), k)
   \<and> fst (snd (snd (Request um z w ce (replicate 6 Timeout))))
       = Returns None (Some ErrNoTaskInQueue)
   \<and> ErrQueueHasBeenClosed \<noteq> ErrNoTaskInQueue"
  using request_loop_timeouts[of 0 um z 6 "[]"]
  by (simp add: Request_def request_loop_after_timeouts split: prod.splits)

theorem Request_closed_witness:
  "(2::nat) \<le> 5
   \<and> snd (snd (Request sample_unmarshal [] sample_worker None [Timeout, Timeout, ChanClosed]))
       = (Returns None (Some ErrQueueHasBeenClosed), 2)"
proof -
  have h: "(2::nat) \<le> 5" by simp
  show ?thesis
    using h Request_closed[OF h, of sample_unmarshal "[]" sample_worker None "[]"]
    by (simp add: numeral_eq_Suc)
qed

text \<open>
  C9, as stated, fails: the task returned after a failed decoding need not be the zero
  value. The decoder is handed the address of the variable; when it has stored a field
  before it fails, \<open>Request\<close> returns the partly filled message with a nil error.
\<close>

theorem Request_returns_partly_decoded_task:
  "Values (sample_entry ''1-0'' ''{timeout:3,body:5}'') ''body''
     = Some (IString ''{timeout:3,body:5}'')
   \<and> snd (partial_unmarshal (StrToBytes ''{timeout:3,body:5}'') (0, []))
       = Some ''json: cannot unmarshal number into Go struct field''
   \<and> fst (snd (snd (Request partial_unmarshal (0, []) sample_worker None
        [Recv (sample_entry ''1-0'' ''{timeout:3,body:5}'')])))
       = Returns (Some (3, [])) None
   \<and> (3, []) \<noteq> ((0, []) :: int \<times> string)"
  by (simp add: Request_def sample_entry_def partial_unmarshal_def StrToBytes_def
      split: prod.splits)

text \<open>
  C9 (amended): when \<open>Request\<close> receives an entry whose \<open>body\<close> is a string, it decodes
  that string into a fresh, zero-valued \<open>job.Message\<close> variable, discards the error of
  the decoder and returns the variable, as the decoder left it, with a nil error. So a
  failed decoding is never reported; the task returned is the zero value when the
  failing decoder has left the variable as it was.
\<close>

theorem Request_unmarshal_failure:
  "k \<le> 5 \<Longrightarrow> Values task ''body'' = Some (IString s) \<Longrightarrow>
     fst (snd (snd (Request um z w ce (replicate k Timeout @ Recv task # rest))))
       = Returns (Some (fst (um (StrToBytes s) z))) None
   \<and> (um (StrToBytes s) z = (z, Some e) \<longrightarrow>
        fst (snd (snd (Request um z w ce (replicate k Timeout @ Recv task # rest))))
          = Returns (Some z) None)"
  by (simp add: Request_def request_loop_after_timeouts split: prod.splits)

theorem Request_unmarshal_failure_witness:
  "(1::nat) \<le> 5
   \<and> Values (sample_entry ''1-0'' ''oops'') ''body'' = Some (IString ''oops'')
   \<and> sample_unmarshal (StrToBytes ''oops'') [] = ([], Some ''invalid character'')
   \<and> fst (snd (snd (Request sample_unmarshal [] sample_worker None
        [Timeout, Recv (sample_entry ''1-0'' ''oops'')])))
       = Returns (Some []) None"
proof -
  have h: "(1::nat) \<le> 5" by simp
  have b: "Values (sample_entry ''1-0'' ''oops'') ''body'' = Some (IString ''oops'')"
    by (simp add: sample_entry_def)
  have u: "sample_unmarshal (StrToBytes ''oops'') [] = ([], Some ''invalid character'')"
    by (simp add: sample_unmarshal_def StrToBytes_def)
  show ?thesis
    using h b u
      Request_unmarshal_failure[OF h b, of sample_unmarshal "[]" sample_worker None "[]"
        "''invalid character''"]
    by simp
qed

text \<open>
  C10: the type assertion \<open>task.Values["body"].(string)\<close> has no \<open>ok\<close> result. When
  \<open>Request\<close> receives an entry, it panics exactly when the field map has no \<open>body\<close> key
  or the value under \<open>body\<close> is not a string, and it returns normally exactly when
  \<open>body\<close> holds a string.
\<close>

theorem Request_type_assertion:
  "k \<le> 5 \<Longrightarrow>
     (fst (snd (snd (Request um z w ce (replicate k Timeout @ Recv task # rest))))
        = TypeAssertionPanic
        \<longleftrightarrow> (\<forall>s. Values task ''body'' \<noteq> Some (IString s)))
   \<and> ((\<exists>m e. fst (snd (snd (Request um z w ce (replicate k Timeout @ Recv task # rest))))
               = Returns m e)
        \<longleftrightarrow> (\<exists>s. Values task ''body'' = Some (IString s)))
   \<and> fst (snd (snd (Request um z w ce (replicate k Timeout @ Recv task # rest))))
        \<noteq> StillPolling"
  by (auto simp: Request_def request_loop_after_timeouts
      split: prod.splits option.splits iface.splits)

theorem Request_type_assertion_witness:
  "(0::nat) \<le> 5
   \<and> fst (snd (snd (Request sample_unmarshal [] sample_worker None
        [Recv \<lparr>ID = ''1-0'', Values = Map.empty\<rparr>]))) = TypeAssertionPanic
   \<and> fst (snd (snd (Request sample_unmarshal [] sample_worker None
        [Recv \<lparr>ID = ''2-0'', Values = Map.empty(''body'' \<mapsto> IInt 7)\<rparr>]))) = TypeAssertionPanic"
proof -
  have h: "(0::nat) \<le> 5" by simp
  show ?thesis
    using h
      Request_type_assertion[OF h, of sample_unmarshal "[]" sample_worker None
        "\<lparr>ID = ''1-0'', Values = Map.empty\<rparr>" "[]"]
      Request_type_assertion[OF h, of sample_unmarshal "[]" sample_worker None
        "\<lparr>ID = ''2-0'', Values = Map.empty(''body'' \<mapsto> IInt 7)\<rparr>" "[]"]
    by simp
qed

section \<open>Shutdown: the winning call\<close>

lemma wait_requeue_bound:
  "t \<le> 200 \<Longrightarrow> wait_requeue ex t = (r, t') \<Longrightarrow>
     t \<le> t' \<and> t' \<le> 200 \<and> (\<forall>u. t \<le> u \<and> u < t' \<longrightarrow> \<not> ex u) \<and>
     (r = ExitObserved \<longrightarrow> ex t') \<and> (r = GraceTimeout \<longrightarrow> t' = 200 \<and> \<not> ex 200)"
proof (induction ex t rule: wait_requeue.induct)
  case (1 ex t)
  show ?case
  proof (cases "ex t \<or> 200 \<le> t")
    case True
    with "1.prems" show ?thesis by (auto split: if_splits)
  next
    case False
    then have nt: "\<not> ex t" "\<not> 200 \<le> t" by auto
    with "1.prems" have w: "wait_requeue ex (Suc t) = (r, t')" by simp
    from nt have "Suc t \<le> 200" by simp
    from "1.IH"[OF nt this w]
    have ih: "Suc t \<le> t'" "t' \<le> 200" "\<forall>u. Suc t \<le> u \<and> u < t' \<longrightarrow> \<not> ex u"
      "r = ExitObserved \<longrightarrow> ex t'" "r = GraceTimeout \<longrightarrow> t' = 200 \<and> \<not> ex 200"
      by simp_all
    have "\<not> ex u" if "t \<le> u \<and> u < t'" for u
    proof (cases "u = t")
      case True
      with nt show ?thesis by simp
    next
      case False
      with that have "Suc t \<le> u \<and> u < t'" by simp
      with ih(3) show ?thesis by blast
    qed
    with ih show ?thesis by simp
  qed
qed

text \<open>
  C7: the call of \<open>Shutdown\<close> that wins the compare-and-swap returns, whatever happens
  on \<open>exit\<close>. After closing \<open>stop\<close> it waits until \<open>exit\<close> is readable or 200 ms have
  passed, whichever is first, so the wait ends at some \<open>t \<le> 200\<close>; then it closes the
  client (when it is a \<open>Client\<close> or a \<open>ClusterClient\<close>, the two that the type switch
  names) and closes \<open>tasks\<close>, and returns nil.
\<close>

theorem Shutdown_terminates:
  "stopFlag w = 0 \<Longrightarrow> \<not> stopOnce w \<Longrightarrow>
     \<exists>outcome t. t \<le> 200 \<and> (\<forall>u<t. \<not> ex u) \<and>
       (outcome = ExitObserved \<longrightarrow> ex t) \<and>
       (outcome = GraceTimeout \<longrightarrow> t = 200 \<and> \<not> ex 200) \<and>
       Shutdown w ex =
         (w\<lparr>stopFlag := 1, stopOnce := True\<rparr>,
          [CloseStop, WaitRequeue outcome t]
          @ (if rdb w = OtherCmdable then [] else [RdbClose]) @ [CloseTasks],
          None)"
proof -
  assume a: "stopFlag w = 0" "\<not> stopOnce w"
  obtain r t where wr: "wait_requeue ex 0 = (r, t)" by (cases "wait_requeue ex 0")
  from wait_requeue_bound[OF _ wr] have b: "t \<le> 200" "\<forall>u<t. \<not> ex u"
    "r = ExitObserved \<longrightarrow> ex t" "r = GraceTimeout \<longrightarrow> t = 200 \<and> \<not> ex 200" by auto
  have "Shutdown w ex = (w\<lparr>stopFlag := 1, stopOnce := True\<rparr>,
          [CloseStop, WaitRequeue r t]
          @ (if rdb w = OtherCmdable then [] else [RdbClose]) @ [CloseTasks], None)"
    using a wr by (cases "rdb w")
      (simp_all add: Shutdown_def CompareAndSwapInt32_def stopOnce_Do_def shutdown_body_def)
  with b show ?thesis by blast
qed

theorem Shutdown_terminates_witness:
  "stopFlag sample_worker = 0 \<and> \<not> stopOnce sample_worker
   \<and> Shutdown sample_worker (\<lambda>t. False) =
       (sample_worker\<lparr>stopFlag := 1, stopOnce := True\<rparr>,
        [CloseStop, WaitRequeue GraceTimeout 200, RdbClose, CloseTasks], None)"
proof -
  have f: "stopFlag sample_worker = 0" and o: "\<not> stopOnce sample_worker"
    and k: "rdb sample_worker = Client"
    by (simp_all add: sample_worker_def NewWorker_def)
  from Shutdown_terminates[OF f o, of "\<lambda>t. False"]
  obtain outcome t where
    g: "outcome = GraceTimeout \<longrightarrow> t = 200 \<and> \<not> False"
    and x: "outcome = ExitObserved \<longrightarrow> False"
    and s: "Shutdown sample_worker (\<lambda>t. False) =
         (sample_worker\<lparr>stopFlag := 1, stopOnce := True\<rparr>,
          [CloseStop, WaitRequeue outcome t]
          @ (if rdb sample_worker = OtherCmdable then [] else [RdbClose]) @ [CloseTasks],
          None)"
    by blast
  from x have "outcome = GraceTimeout" by (cases outcome) simp_all
  with g s k f o show ?thesis by simp
qed

section \<open>Queue\<close>

text \<open>
  C5: \<open>Queue\<close> reads the flag once. When it is 1 (shutdown has begun) it returns
  \<open>ErrQueueShutdown\<close> and calls nothing on the store. Otherwise it performs exactly one
  \<open>XAdd\<close>, on the configured stream with the configured \<open>MaxLen\<close>, whose field map has
  the single key \<open>body\<close> holding the task's bytes as a string, and returns the store's
  error.
\<close>

theorem Queue_contract:
  "(stopFlag w = 1 \<longrightarrow> Queue w b r = ([], Some (QueueErr ErrQueueShutdown)))
   \<and> (stopFlag w \<noteq> 1 \<longrightarrow>
        Queue w b r =
          ([XAdd (streamName (opts w)) (maxLength (opts w))
              (Map.empty(''body'' \<mapsto> IString b)) r],
           map_option StoreErr r)
        \<and> dom (Map.empty(''body'' \<mapsto> IString b)) = {''body''})"
  by (simp add: Queue_def queue_def BytesToStr_def)

theorem Queue_contract_witness:
  "stopFlag (sample_worker\<lparr>stopFlag := 1\<rparr>) = 1
   \<and> Queue (sample_worker\<lparr>stopFlag := 1\<rparr>) ''{id:1}'' None
       = ([], Some (QueueErr ErrQueueShutdown))
   \<and> stopFlag sample_worker \<noteq> 1
   \<and> Queue sample_worker ''{id:1}'' None
       = ([XAdd ''golang-queue'' 0 (Map.empty(''body'' \<mapsto> IString ''{id:1}'')) None], None)"
proof -
  have f: "stopFlag sample_worker \<noteq> 1" "stopFlag (sample_worker\<lparr>stopFlag := 1\<rparr>) = 1"
    by (simp_all add: sample_worker_def NewWorker_def)
  have o: "streamName (opts sample_worker) = ''golang-queue''"
    "maxLength (opts sample_worker) = 0"
    by (simp_all add: sample_worker_def NewWorker_def sample_options_def)
  show ?thesis
    using f o Queue_contract[of "sample_worker\<lparr>stopFlag := 1\<rparr>" "''{id:1}''" None]
      Queue_contract[of sample_worker "''{id:1}''" None]
    by simp
qed

section \<open>The consumer loop: lemmas on the observations\<close>

lemma exit_closes_simps [simp]:
  "exit_closes [] = 0"
  "exit_closes (e # tr) = (if e = CloseExit then 1 else 0) + exit_closes tr"
  "exit_closes (tr @ tr') = exit_closes tr + exit_closes tr'"
  by (simp_all add: exit_closes_def)

lemma acks_simps [simp]:
  "acks i [] = 0"
  "acks i (e # tr) = (if is_ack i e then 1 else 0) + acks i tr"
  "acks i (tr @ tr') = acks i tr + acks i tr'"
  by (simp_all add: acks_def)

lemma sends_simps [simp]:
  "sends i [] = 0"
  "sends i (e # tr) = (if is_send i e then 1 else 0) + sends i tr"
  "sends i (tr @ tr') = sends i tr + sends i tr'"
  by (simp_all add: sends_def)

lemma requeues_simps [simp]:
  "requeues i [] = 0"
  "requeues i (e # tr) = (if e = LogInfo (RequeueTheTask i) then 1 else 0) + requeues i tr"
  "requeues i (tr @ tr') = requeues i tr + requeues i tr'"
  by (simp_all add: requeues_def)

lemma xadd_values_simps [simp]:
  "xadd_values [] = []"
  "xadd_values (e # tr) = xadd_of e @ xadd_values tr"
  "xadd_values (tr @ tr') = xadd_values tr @ xadd_values tr'"
  by (simp_all add: xadd_values_def)

lemma read_entries_simps [simp]:
  "read_entries [] = []"
  "read_entries (e # tr) = entries_of e @ read_entries tr"
  "read_entries (tr @ tr') = read_entries tr @ read_entries tr'"
  by (simp_all add: read_entries_def)

lemma single_reads_simps [simp]:
  "single_reads [] = True"
  "single_reads (e # tr) = (length (entries_of e) \<le> 1 \<and> single_reads tr)"
  "single_reads (tr @ tr') = (single_reads tr \<and> single_reads tr')"
  by (simp_all add: single_reads_def)

lemma entries_of_read_call [simp]:
  "entries_of (read_call w (Inr data)) = concat (map Messages data)"
  "entries_of (read_call w (Inl err)) = []"
  "is_ack i (read_call w r) = False" "is_send i (read_call w r) = False"
  "xadd_of (read_call w r) = []" "read_call w r \<noteq> CloseExit"
  "read_call w r \<noteq> LogInfo l"
  by (simp_all add: read_call_def)

lemma log_read_error_simps [simp]:
  "entries_of (log_read_error err) = []"
  "is_ack i (log_read_error err) = False" "is_send i (log_read_error err) = False"
  "xadd_of (log_read_error err) = []" "log_read_error err \<noteq> CloseExit"
  "log_read_error err \<noteq> LogInfo (RequeueTheTask i)"
  "log_read_error err \<noteq> Send m"
  by (simp_all add: log_read_error_def)

lemma range_Messages_append:
  "range_Messages w (xs @ ys) hs =
     (case range_Messages w xs hs of
        (effs, Continue, hs') \<Rightarrow>
          (case range_Messages w ys hs' of (effs', fl, hs'') \<Rightarrow> (effs @ effs', fl, hs''))
      | (effs, fl, hs') \<Rightarrow> (effs, fl, hs'))"
  by (induction w xs hs rule: range_Messages.induct)
     (auto split: prod.splits flow.splits)

lemma range_data_flat:
  "range_data w data hs = range_Messages w (concat (map Messages data)) hs"
  by (induction w data hs rule: range_data.induct)
     (auto simp: range_Messages_append split: prod.splits flow.splits)

lemma range_Messages_exit:
  "range_Messages w ms hs = (effs, fl, hs') \<Longrightarrow>
     (fl = Return \<longrightarrow> exit_closes effs = 1 \<and> effs \<noteq> [] \<and> last effs = CloseExit
        \<and> length (xadd_values effs) = 1) \<and>
     (fl \<noteq> Return \<longrightarrow> exit_closes effs = 0 \<and> xadd_values effs = [])"
  by (induction w ms hs arbitrary: effs fl hs' rule: range_Messages.induct)
     (auto simp: queue_def split: prod.splits option.splits)











text \<open>One pass that read data, in terms of the flat list of its entries.\<close>

lemma fetchTask_ReadData:
  "fetchTask w (ReadData data hs # rest) =
     (case range_Messages w (concat (map Messages data)) hs of
        (effs, Continue, _) \<Rightarrow>
          (case fetchTask w rest of (effs', st) \<Rightarrow> (read_call w (Inr data) # effs @ effs', st))
      | (effs, Return, _) \<Rightarrow> (read_call w (Inr data) # effs, Returned)
      | (effs, Blocked, _) \<Rightarrow> (read_call w (Inr data) # effs, BlockedInSelect)
      | (effs, Panic, _) \<Rightarrow> (read_call w (Inr data) # effs, Panicked))"
  by (simp add: range_data_flat)

lemma fetchTask_cases:
  assumes "fetchTask w (ReadData data hs # rest) = (tr, st)"
  obtains (cont) effs hs' tr' where
      "range_Messages w (concat (map Messages data)) hs = (effs, Continue, hs')"
      "fetchTask w rest = (tr', st)" "tr = read_call w (Inr data) # effs @ tr'"
  | (stop) effs fl hs' where
      "range_Messages w (concat (map Messages data)) hs = (effs, fl, hs')"
      "fl \<noteq> Continue" "tr = read_call w (Inr data) # effs"
      "st = (case fl of Return \<Rightarrow> Returned | Blocked \<Rightarrow> BlockedInSelect | _ \<Rightarrow> Panicked)"
proof -
  obtain effs fl hs' where r: "range_Messages w (concat (map Messages data)) hs = (effs, fl, hs')"
    by (cases "range_Messages w (concat (map Messages data)) hs") auto
  note a = assms[unfolded fetchTask_ReadData]
  show thesis
  proof (cases fl)
    case Continue
    obtain tr' st' where f: "fetchTask w rest = (tr', st')" by (cases "fetchTask w rest")
    with a r Continue have "tr = read_call w (Inr data) # effs @ tr'" "st' = st"
      by simp_all
    with r Continue f show ?thesis by (auto intro: cont)
  next
    case Return
    with a r show ?thesis by (auto intro: stop[OF r])
  next
    case Blocked
    with a r show ?thesis by (auto intro: stop[OF r])
  next
    case Panic
    with a r show ?thesis by (auto intro: stop[OF r])
  qed
qed


lemma fetchTask_ReadFails:
  "fetchTask w (ReadFails err # rest) = (tr, st) \<Longrightarrow>
     \<exists>tr'. fetchTask w rest = (tr', st) \<and>
       tr = read_call w (Inl err) # log_read_error err # tr'"
  by (auto split: prod.splits)








lemma fetchTask_exit_count:
  "fetchTask w sc = (tr, st) \<Longrightarrow>
     (st = Returned \<or> exit_closes tr = 0) \<and>
     (exit_closes tr = 0 \<or> exit_closes tr = 1 \<and> tr \<noteq> [] \<and> last tr = CloseExit)"
proof (induction sc arbitrary: tr st)
  case Nil
  then show ?case by simp
next
  case (Cons it sc)
  show ?case
  proof (cases it)
    case StopAtCheck
    with Cons.prems show ?thesis by simp
  next
    case (ReadFails err)
    from fetchTask_ReadFails[OF Cons.prems(1)[unfolded ReadFails]]
    obtain tr' where f: "fetchTask w sc = (tr', st)"
      and t: "tr = read_call w (Inl err) # log_read_error err # tr'"
      by blast
    from Cons.IH[OF f] t show ?thesis by auto
  next
    case (ReadData data hs)
    from Cons.prems(1)[unfolded ReadData] show ?thesis
    proof (cases rule: fetchTask_cases)
      case (cont effs hs' tr')
      from range_Messages_exit[OF cont(1)] have "exit_closes effs = 0" by simp
      with Cons.IH[OF cont(2)] cont(3) show ?thesis by auto
    next
      case (stop effs fl hs')
      from range_Messages_exit[OF stop(1)] stop(3,4) show ?thesis
        by (cases fl) auto
    qed
  qed
qed

lemma fetchTask_returned:
  "fetchTask w sc = (tr, Returned) \<Longrightarrow>
     (exit_closes tr = 0 \<and> xadd_values tr = [] \<and>
        (\<exists>pre rest. sc = pre @ StopAtCheck # rest \<and> fetchTask w pre = (tr, Running)))
   \<or> (exit_closes tr = 1 \<and> length (xadd_values tr) = 1 \<and>
        (\<exists>pre data hs rest tr1 effs hs'.
            sc = pre @ ReadData data hs # rest \<and> fetchTask w pre = (tr1, Running) \<and>
            range_data w data hs = (effs, Return, hs') \<and>
            tr = tr1 @ read_call w (Inr data) # effs))"
  (is "_ \<Longrightarrow> ?A sc tr \<or> ?B sc tr")
proof (induction sc arbitrary: tr)
  case Nil
  then show ?case by simp
next
  case (Cons it sc)
  show ?case
  proof (cases it)
    case StopAtCheck
    with Cons.prems have "tr = []" by simp
    moreover have "it # sc = [] @ StopAtCheck # sc" "fetchTask w [] = ([], Running)"
      using StopAtCheck by simp_all
    ultimately have "exit_closes tr = 0" "xadd_values tr = []"
      "\<exists>pre rest. it # sc = pre @ StopAtCheck # rest \<and> fetchTask w pre = (tr, Running)"
      by (simp, simp, blast)
    then have "?A (it # sc) tr" by blast
    then show ?thesis ..
  next
    case (ReadFails err)
    from fetchTask_ReadFails[OF Cons.prems(1)[unfolded ReadFails]]
    obtain tr' where f: "fetchTask w sc = (tr', Returned)"
      and t: "tr = read_call w (Inl err) # log_read_error err # tr'"
      by blast
    from Cons.IH[OF f] show ?thesis
    proof
      assume "?A sc tr'"
      then obtain pre rest where p: "sc = pre @ StopAtCheck # rest" "fetchTask w pre = (tr', Running)"
        and e: "exit_closes tr' = 0" "xadd_values tr' = []" by blast
      from p t ReadFails have "it # sc = (it # pre) @ StopAtCheck # rest"
        "fetchTask w (it # pre) = (tr, Running)" by simp_all
      then have "\<exists>pre rest. it # sc = pre @ StopAtCheck # rest \<and> fetchTask w pre = (tr, Running)"
        by blast
      moreover from e t have "exit_closes tr = 0" "xadd_values tr = []" by simp_all
      ultimately have "?A (it # sc) tr" by blast
      then show ?thesis ..
    next
      assume "?B sc tr'"
      then obtain pre data hs rest tr1 effs hs' where
        p: "sc = pre @ ReadData data hs # rest" "fetchTask w pre = (tr1, Running)"
          "range_data w data hs = (effs, Return, hs')" "tr' = tr1 @ read_call w (Inr data) # effs"
        and e: "exit_closes tr' = 1" "length (xadd_values tr') = 1" by blast
      from p t ReadFails have "it # sc = (it # pre) @ ReadData data hs # rest"
        "fetchTask w (it # pre) = (read_call w (Inl err) # log_read_error err # tr1, Running)"
        "tr = (read_call w (Inl err) # log_read_error err # tr1) @ read_call w (Inr data) # effs"
        by simp_all
      with p(3) have "\<exists>pre data hs rest tr1 effs hs'.
            it # sc = pre @ ReadData data hs # rest \<and> fetchTask w pre = (tr1, Running) \<and>
            range_data w data hs = (effs, Return, hs') \<and>
            tr = tr1 @ read_call w (Inr data) # effs"
        by blast
      moreover from e t have "exit_closes tr = 1" "length (xadd_values tr) = 1" by simp_all
      ultimately have "?B (it # sc) tr" by blast
      then show ?thesis ..
    qed
  next
    case (ReadData data hs)
    from Cons.prems(1)[unfolded ReadData] show ?thesis
    proof (cases rule: fetchTask_cases)
      case (cont effs hs' tr')
      from range_Messages_exit[OF cont(1)] have z: "exit_closes effs = 0" "xadd_values effs = []"
        by simp_all
      have pre: "fetchTask w (it # pre) = (read_call w (Inr data) # effs @ t1, Running)"
        if "fetchTask w pre = (t1, Running)" for pre t1
        using that cont(1) ReadData by (simp add: range_data_flat)
      from Cons.IH[OF cont(2)] show ?thesis
      proof
        assume "?A sc tr'"
        then obtain pre rest where p: "sc = pre @ StopAtCheck # rest" "fetchTask w pre = (tr', Running)"
          and e: "exit_closes tr' = 0" "xadd_values tr' = []" by blast
        from p pre[OF p(2)] cont(3) have "it # sc = (it # pre) @ StopAtCheck # rest"
          "fetchTask w (it # pre) = (tr, Running)" by simp_all
        then have "\<exists>pre rest. it # sc = pre @ StopAtCheck # rest \<and> fetchTask w pre = (tr, Running)"
          by blast
        moreover from e z cont(3) have "exit_closes tr = 0" "xadd_values tr = []" by simp_all
        ultimately have "?A (it # sc) tr" by blast
        then show ?thesis ..
      next
        assume "?B sc tr'"
        then obtain pre d2 h2 rest tr1 effs2 hs2 where
          p: "sc = pre @ ReadData d2 h2 # rest" "fetchTask w pre = (tr1, Running)"
            "range_data w d2 h2 = (effs2, Return, hs2)" "tr' = tr1 @ read_call w (Inr d2) # effs2"
          and e: "exit_closes tr' = 1" "length (xadd_values tr') = 1" by blast
        from p pre[OF p(2)] cont(3) have "it # sc = (it # pre) @ ReadData d2 h2 # rest"
          "fetchTask w (it # pre) = (read_call w (Inr data) # effs @ tr1, Running)"
          "tr = (read_call w (Inr data) # effs @ tr1) @ read_call w (Inr d2) # effs2"
          by simp_all
        with p(3) have "\<exists>pre data hs rest tr1 effs hs'.
            it # sc = pre @ ReadData data hs # rest \<and> fetchTask w pre = (tr1, Running) \<and>
            range_data w data hs = (effs, Return, hs') \<and>
            tr = tr1 @ read_call w (Inr data) # effs"
          by blast
        moreover from e z cont(3) have "exit_closes tr = 1" "length (xadd_values tr) = 1" by simp_all
        ultimately have "?B (it # sc) tr" by blast
        then show ?thesis ..
      qed
    next
      case (stop effs fl hs')
      from stop(4) have fl: "fl = Return" by (cases fl) simp_all
      from range_Messages_exit[OF stop(1)] fl have e: "exit_closes effs = 1" "length (xadd_values effs) = 1"
        by simp_all
      have "it # sc = [] @ ReadData data hs # sc" "fetchTask w [] = ([], Running)"
        "range_data w data hs = (effs, Return, hs')" "tr = [] @ read_call w (Inr data) # effs"
        using ReadData stop(1,3) fl by (simp_all add: range_data_flat)
      then have "\<exists>pre data hs rest tr1 effs hs'.
            it # sc = pre @ ReadData data hs # rest \<and> fetchTask w pre = (tr1, Running) \<and>
            range_data w data hs = (effs, Return, hs') \<and>
            tr = tr1 @ read_call w (Inr data) # effs"
        by blast
      moreover from e stop(3) have "exit_closes tr = 1" "length (xadd_values tr) = 1" by simp_all
      ultimately have "?B (it # sc) tr" by blast
      then show ?thesis ..
    qed
  qed
qed









lemma handoff_acks_read_call [simp]:
  "handoff_acks w i (read_call w' r # tr) = handoff_acks w i tr"
  "requeue_adds w m (read_call w' r # tr) = requeue_adds w m tr"
  "\<not> is_XAck (read_call w' r)" "\<not> is_XAdd (read_call w' r)"
  by (simp_all add: read_call_def)

lemma handoff_acks_log_read_error [simp]:
  "handoff_acks w i (log_read_error err # tr) = handoff_acks w i tr"
  by (simp add: log_read_error_def)

lemma requeue_adds_log_read_error [simp]:
  "requeue_adds w m (log_read_error err # read_call w' r # tr) = requeue_adds w m tr"
  "requeue_adds w m [log_read_error err] = 0"
  by (simp_all add: log_read_error_def read_call_def)









section \<open>The consumer loop: what happens to an entry\<close>




section \<open>The consumer loop: exit points\<close>

text \<open>
  C4, as stated, fails: the loop has a second exit point, the non-blocking check of
  \<open>stop\<close> at the top of each pass, and a return there does not close \<open>exit\<close>.
\<close>

theorem fetchTask_returns_at_stop_check:
  "fetchTask sample_worker [ReadFails RedisNil, StopAtCheck]
     = ([read_call sample_worker (Inl RedisNil), LogInfo NoDataWhileReading], Returned)
   \<and> exit_closes (fst (fetchTask sample_worker [ReadFails RedisNil, StopAtCheck])) = 0"
  by (simp add: log_read_error_def read_call_def)

text \<open>
  C4 (amended): the loop has two exit points. When it returns at the check of \<open>stop\<close>
  at the top of a pass, \<open>exit\<close> has not been closed and nothing was requeued. When it
  returns from the \<open>stop\<close> case of the handoff \<open>select\<close>, it has called \<open>XAdd\<close> once
  and closed \<open>exit\<close> once, as its last effect. \<open>exit\<close> is closed at most once and only
  by a run that has returned.
\<close>

theorem fetchTask_exit_points:
  "fetchTask w script = (tr, st) \<Longrightarrow>
     (st = Returned \<or> exit_closes tr = 0)
   \<and> (exit_closes tr = 0 \<or> exit_closes tr = 1 \<and> tr \<noteq> [] \<and> last tr = CloseExit)
   \<and> (st = Returned \<longrightarrow>
        (exit_closes tr = 0 \<and> xadd_values tr = [] \<and>
          (\<exists>pre rest. script = pre @ StopAtCheck # rest \<and> fetchTask w pre = (tr, Running)))
      \<or> (exit_closes tr = 1 \<and> length (xadd_values tr) = 1 \<and>
          (\<exists>pre data hs rest tr1 effs hs'.
              script = pre @ ReadData data hs # rest \<and> fetchTask w pre = (tr1, Running) \<and>
              range_data w data hs = (effs, Return, hs') \<and>
              tr = tr1 @ read_call w (Inr data) # effs)))"
proof -
  assume f: "fetchTask w script = (tr, st)"
  note c = fetchTask_exit_count[OF f]
  have "st = Returned \<longrightarrow>
        (exit_closes tr = 0 \<and> xadd_values tr = [] \<and>
          (\<exists>pre rest. script = pre @ StopAtCheck # rest \<and> fetchTask w pre = (tr, Running)))
      \<or> (exit_closes tr = 1 \<and> length (xadd_values tr) = 1 \<and>
          (\<exists>pre data hs rest tr1 effs hs'.
              script = pre @ ReadData data hs # rest \<and> fetchTask w pre = (tr1, Running) \<and>
              range_data w data hs = (effs, Return, hs') \<and>
              tr = tr1 @ read_call w (Inr data) # effs))"
  proof
    assume "st = Returned"
    with f have "fetchTask w script = (tr, Returned)" by simp
    from fetchTask_returned[OF this] show
       "(exit_closes tr = 0 \<and> xadd_values tr = [] \<and>
          (\<exists>pre rest. script = pre @ StopAtCheck # rest \<and> fetchTask w pre = (tr, Running)))
      \<or> (exit_closes tr = 1 \<and> length (xadd_values tr) = 1 \<and>
          (\<exists>pre data hs rest tr1 effs hs'.
              script = pre @ ReadData data hs # rest \<and> fetchTask w pre = (tr1, Running) \<and>
              range_data w data hs = (effs, Return, hs') \<and>
              tr = tr1 @ read_call w (Inr data) # effs))" .
  qed
  from conjI[OF conjunct1[OF c] conjI[OF conjunct2[OF c] this]] show ?thesis .
qed

theorem fetchTask_exit_points_witness:
  "fetchTask sample_worker
      [ReadData [\<lparr>Stream = ''golang-queue'', Messages = [sample_entry ''2-0'' ''b'']\<rparr>]
         [StopRecv None]]
     = ([read_call sample_worker
           (Inr [\<lparr>Stream = ''golang-queue'', Messages = [sample_entry ''2-0'' ''b'']\<rparr>]),
         LogInfo (RequeueTheTask ''2-0''),
         XAdd ''golang-queue'' 0 (Values (sample_entry ''2-0'' ''b'')) None,
         CloseExit], Returned)
   \<and> exit_closes (fst (fetchTask sample_worker
      [ReadData [\<lparr>Stream = ''golang-queue'', Messages = [sample_entry ''2-0'' ''b'']\<rparr>]
         [StopRecv None]])) = 1"
proof -
  let ?sc = "[ReadData [\<lparr>Stream = ''golang-queue'', Messages = [sample_entry ''2-0'' ''b'']\<rparr>]
         [StopRecv None]]"
  let ?tr = "[read_call sample_worker
           (Inr [\<lparr>Stream = ''golang-queue'', Messages = [sample_entry ''2-0'' ''b'']\<rparr>]),
         LogInfo (RequeueTheTask ''2-0''),
         XAdd ''golang-queue'' 0 (Values (sample_entry ''2-0'' ''b'')) None,
         CloseExit]"
  have f: "fetchTask sample_worker ?sc = (?tr, Returned)"
    by (simp add: queue_def sample_worker_def NewWorker_def sample_options_def sample_entry_def)
  have "xadd_values ?tr \<noteq> []" by (simp add: read_call_def)
  with fetchTask_exit_points[OF f] have e: "exit_closes ?tr = 1" by blast
  show ?thesis unfolding f fst_conv using e by (intro conjI refl)
qed

section \<open>The consumer loop: store errors\<close>



section \<open>Shutdown: concurrent calls\<close>

lemma shutdown_body_rdb:
  "rdb w1 = rdb w2 \<Longrightarrow> shutdown_body w1 ex = shutdown_body w2 ex"
  by (simp add: shutdown_body_def)

lemma shutdown_inv_init:
  "stopFlag w = 0 \<Longrightarrow> \<not> stopOnce w \<Longrightarrow> shutdown_inv w exits n (init w n)"
  by (simp add: shutdown_inv_def init_def)

lemma step_out_of_range: "\<not> i < length (pcs s) \<Longrightarrow> step exits s i = s"
  by (simp add: step_def)

lemma step_AtCAS_win:
  "i < length (pcs s) \<Longrightarrow> pcs s ! i = AtCAS \<Longrightarrow> stopFlag (wk s) = 0 \<Longrightarrow>
     step exits s i = s\<lparr>wk := (wk s)\<lparr>stopFlag := 1\<rparr>, pcs := (pcs s)[i := AtOnce]\<rparr>"
  by (simp add: step_def CompareAndSwapInt32_def)

lemma step_AtCAS_lose:
  "i < length (pcs s) \<Longrightarrow> pcs s ! i = AtCAS \<Longrightarrow> stopFlag (wk s) \<noteq> 0 \<Longrightarrow>
     step exits s i = s\<lparr>pcs := (pcs s)[i := Finished (Some ErrQueueShutdown)]\<rparr>"
  by (simp add: step_def CompareAndSwapInt32_def)

lemma step_AtOnce:
  "i < length (pcs s) \<Longrightarrow> pcs s ! i = AtOnce \<Longrightarrow> \<not> stopOnce (wk s) \<Longrightarrow>
     step exits s i = s\<lparr>wk := (wk s)\<lparr>stopOnce := True\<rparr>, pcs := (pcs s)[i := Finished None],
                          trace := trace s @ map (Pair i) (shutdown_body (wk s) (exits i))\<rparr>"
  by (simp add: step_def stopOnce_Do_def)

lemma step_Finished:
  "i < length (pcs s) \<Longrightarrow> pcs s ! i = Finished r \<Longrightarrow> step exits s i = s"
  by (simp add: step_def)

lemma step_inv:
  assumes "shutdown_inv w exits n s"
  shows "shutdown_inv w exits n (step exits s i)"
proof (cases "i < length (pcs s)")
  case False
  with assms show ?thesis by (simp add: step_out_of_range)
next
  case True
  from assms have len: "length (pcs s) = n" and r: "rdb (wk s) = rdb w"
    by (simp_all add: shutdown_inv_def)
  show ?thesis
  proof (cases "pcs s ! i")
    case (Finished r)
    with True assms show ?thesis by (simp add: step_Finished)
  next
    case AtCAS
    show ?thesis
    proof (cases "stopFlag (wk s) = 0")
      case z: True
      with assms have a: "\<not> stopOnce (wk s)" "trace s = []" "\<forall>j<n. pcs s ! j = AtCAS"
        by (auto simp: shutdown_inv_def)
      show ?thesis
        unfolding step_AtCAS_win[OF True AtCAS z] shutdown_inv_def
        using a len r True by (auto simp: nth_list_update)
    next
      case nz: False
      with assms obtain k where k: "k < n"
        "\<forall>j<n. j \<noteq> k \<longrightarrow> pcs s ! j = AtCAS \<or> pcs s ! j = Finished (Some ErrQueueShutdown)"
        "pcs s ! k = AtOnce \<and> \<not> stopOnce (wk s) \<and> trace s = [] \<or>
         pcs s ! k = Finished None \<and> stopOnce (wk s) \<and>
           trace s = map (Pair k) (shutdown_body w (exits k))"
        and f: "stopFlag (wk s) = 1"
        by (auto simp: shutdown_inv_def)
      from k(3) AtCAS have ik: "i \<noteq> k" by auto
      show ?thesis
        unfolding step_AtCAS_lose[OF True AtCAS nz] shutdown_inv_def
        using k ik f len r True
        by (auto simp: nth_list_update intro!: exI[of _ k])
    qed
  next
    case AtOnce
    with assms True len have nz: "stopFlag (wk s) = 1"
      by (auto simp: shutdown_inv_def)
    with assms obtain k where k: "k < n"
        "\<forall>j<n. j \<noteq> k \<longrightarrow> pcs s ! j = AtCAS \<or> pcs s ! j = Finished (Some ErrQueueShutdown)"
        "pcs s ! k = AtOnce \<and> \<not> stopOnce (wk s) \<and> trace s = [] \<or>
         pcs s ! k = Finished None \<and> stopOnce (wk s) \<and>
           trace s = map (Pair k) (shutdown_body w (exits k))"
      by (auto simp: shutdown_inv_def)
    from k(2) AtOnce True len have ik: "i = k" by auto
    with k(3) AtOnce have o: "\<not> stopOnce (wk s)" "trace s = []" by auto
    show ?thesis
      unfolding step_AtOnce[OF True AtOnce o(1)] shutdown_inv_def
      using k ik nz len r True o shutdown_body_rdb[OF r, of "exits k"]
      by (auto simp: nth_list_update intro!: exI[of _ k])
  qed
qed

lemma run_inv:
  "shutdown_inv w exits n s \<Longrightarrow> shutdown_inv w exits n (run exits s sched)"
  unfolding run_def
  by (induction sched arbitrary: s) (simp_all add: step_inv)

lemma shutdown_body_nonempty: "shutdown_body w ex \<noteq> []"
  by (simp add: shutdown_body_def)

lemma shutdown_inv_facts:
  assumes "shutdown_inv w exits n s"
  shows "\<forall>i<n. \<forall>j<n. won (pcs s ! i) \<and> won (pcs s ! j) \<longrightarrow> i = j"
    and "\<forall>i<n. \<forall>e. pcs s ! i = Finished (Some e) \<longrightarrow> e = ErrQueueShutdown \<and> i \<notin> fst ` set (trace s)"
    and "trace s = [] \<or> (\<exists>i<n. pcs s ! i = Finished None \<and>
            trace s = map (Pair i) (shutdown_body w (exits i)))"
    and "0 < n \<and> list_all finished (pcs s) \<longrightarrow>
           (\<exists>i<n. pcs s ! i = Finished None \<and>
              trace s = map (Pair i) (shutdown_body w (exits i)) \<and>
              (\<forall>j<n. j \<noteq> i \<longrightarrow> pcs s ! j = Finished (Some ErrQueueShutdown)))"
proof -
  from assms have len: "length (pcs s) = n" by (simp add: shutdown_inv_def)
  from assms consider
    (idle) "trace s = []" "\<forall>j<n. pcs s ! j = AtCAS"
  | (won) k where "k < n"
        "\<forall>j<n. j \<noteq> k \<longrightarrow> pcs s ! j = AtCAS \<or> pcs s ! j = Finished (Some ErrQueueShutdown)"
        "pcs s ! k = AtOnce \<and> trace s = [] \<or>
         pcs s ! k = Finished None \<and> trace s = map (Pair k) (shutdown_body w (exits k))"
    by (auto simp: shutdown_inv_def)
  note c = this
  show "\<forall>i<n. \<forall>j<n. won (pcs s ! i) \<and> won (pcs s ! j) \<longrightarrow> i = j"
  proof (cases rule: c)
    case idle
    then show ?thesis by (auto simp: won_def)
  next
    case (won k)
    have "i = k" if "i < n" "won (pcs s ! i)" for i
      using that won(2) by (auto simp: won_def)
    then show ?thesis by blast
  qed
  show "\<forall>i<n. \<forall>e. pcs s ! i = Finished (Some e) \<longrightarrow> e = ErrQueueShutdown \<and> i \<notin> fst ` set (trace s)"
  proof (cases rule: c)
    case idle
    then show ?thesis by auto
  next
    case (won k)
    show ?thesis
    proof (intro allI impI)
      fix i e assume i: "i < n" "pcs s ! i = Finished (Some e)"
      with won(3) have "i \<noteq> k" by auto
      with won(2) i have "e = ErrQueueShutdown" by auto
      moreover from won(3) \<open>i \<noteq> k\<close> have "i \<notin> fst ` set (trace s)" by auto
      ultimately show "e = ErrQueueShutdown \<and> i \<notin> fst ` set (trace s)" by simp
    qed
  qed
  show "trace s = [] \<or> (\<exists>i<n. pcs s ! i = Finished None \<and>
            trace s = map (Pair i) (shutdown_body w (exits i)))"
    by (cases rule: c) auto
  show "0 < n \<and> list_all finished (pcs s) \<longrightarrow>
           (\<exists>i<n. pcs s ! i = Finished None \<and>
              trace s = map (Pair i) (shutdown_body w (exits i)) \<and>
              (\<forall>j<n. j \<noteq> i \<longrightarrow> pcs s ! j = Finished (Some ErrQueueShutdown)))"
  proof (intro impI, elim conjE)
    assume n: "0 < n" and fin: "list_all finished (pcs s)"
    from fin len have f: "finished (pcs s ! j)" if "j < n" for j
      using that by (simp add: list_all_length)
    show "\<exists>i<n. pcs s ! i = Finished None \<and>
              trace s = map (Pair i) (shutdown_body w (exits i)) \<and>
              (\<forall>j<n. j \<noteq> i \<longrightarrow> pcs s ! j = Finished (Some ErrQueueShutdown))"
    proof (cases rule: c)
      case idle
      with f[OF n] n show ?thesis by (auto simp: finished_def)
    next
      case (won k)
      from f[OF won(1)] won(3) have "pcs s ! k = Finished None \<and>
          trace s = map (Pair k) (shutdown_body w (exits k))"
        by (auto simp: finished_def)
      moreover have "pcs s ! j = Finished (Some ErrQueueShutdown)" if "j < n" "j \<noteq> k" for j
        using f[OF that(1)] won(2) that by (auto simp: finished_def)
      ultimately show ?thesis using won(1) by blast
    qed
  qed
qed

lemma Shutdown_lost: "stopFlag w \<noteq> 0 \<Longrightarrow> Shutdown w ex = (w, [], Some ErrQueueShutdown)"
  by (simp add: Shutdown_def CompareAndSwapInt32_def)

lemma Shutdown_as_steps:
  "(case Shutdown w (exits 0) of
      (w', effs, r) \<Rightarrow>
        run exits (init w 1) [0, 0] = \<lparr>wk = w', pcs = [Finished r], trace = map (Pair 0) effs\<rparr>)"
  by (simp add: Shutdown_def CompareAndSwapInt32_def run_def init_def step_def stopOnce_Do_def)

text \<open>
  C2: for any number of calls of \<open>Shutdown\<close> on a fresh worker and any order of their
  steps: at most one call wins the compare-and-swap; a call that has returned an error
  returned \<open>ErrQueueShutdown\<close> and performed no effect; the effects performed are none
  or the shutdown sequence (close \<open>stop\<close>, wait, close the client, close \<open>tasks\<close>) of
  the winning call, once; and when all calls have returned, exactly one returned nil
  and every other one \<open>ErrQueueShutdown\<close>. A call that finds the flag set returns
  \<open>ErrQueueShutdown\<close> with no effect, and the two steps of one call are \<open>Shutdown\<close>.
\<close>

theorem Shutdown_exactly_one_winner:
  "stopFlag w = 0 \<Longrightarrow> \<not> stopOnce w \<Longrightarrow> s = run exits (init w n) sched \<Longrightarrow>
     (\<forall>i<n. \<forall>j<n. won (pcs s ! i) \<and> won (pcs s ! j) \<longrightarrow> i = j)
   \<and> (\<forall>i<n. \<forall>e. pcs s ! i = Finished (Some e)
          \<longrightarrow> e = ErrQueueShutdown \<and> i \<notin> fst ` set (trace s))
   \<and> (trace s = [] \<or>
        (\<exists>i<n. pcs s ! i = Finished None \<and>
           trace s = map (Pair i) (shutdown_body w (exits i))))
   \<and> (0 < n \<and> list_all finished (pcs s) \<longrightarrow>
        (\<exists>i<n. pcs s ! i = Finished None \<and>
           trace s = map (Pair i) (shutdown_body w (exits i)) \<and>
           (\<forall>j<n. j \<noteq> i \<longrightarrow> pcs s ! j = Finished (Some ErrQueueShutdown))))
   \<and> (\<forall>w' ex. stopFlag w' \<noteq> 0 \<longrightarrow> Shutdown w' ex = (w', [], Some ErrQueueShutdown))
   \<and> (case Shutdown w (exits 0) of
        (w', effs, r) \<Rightarrow>
          run exits (init w 1) [0, 0]
            = \<lparr>wk = w', pcs = [Finished r], trace = map (Pair 0) effs\<rparr>)"
proof -
  assume a: "stopFlag w = 0" "\<not> stopOnce w" and s: "s = run exits (init w n) sched"
  from run_inv[OF shutdown_inv_init[OF a]] s have i: "shutdown_inv w exits n s" by simp
  note f = shutdown_inv_facts[OF i]
  from f(1) f(2) f(3) f(4) Shutdown_as_steps[where w=w and exits=exits] show ?thesis
    by (simp add: Shutdown_lost)
qed

theorem Shutdown_exactly_one_winner_witness:
  "stopFlag sample_worker = 0 \<and> \<not> stopOnce sample_worker
   \<and> pcs (run (\<lambda>i t. True) (init sample_worker 3) [1, 0, 1, 2, 1, 0])
       = [Finished (Some ErrQueueShutdown), Finished None, Finished (Some ErrQueueShutdown)]
   \<and> trace (run (\<lambda>i t. True) (init sample_worker 3) [1, 0, 1, 2, 1, 0])
       = [(1, CloseStop), (1, WaitRequeue ExitObserved 0), (1, RdbClose), (1, CloseTasks)]"
proof -
  let ?s = "run (\<lambda>i t. True) (init sample_worker 3) [1, 0, 1, 2, 1, 0]"
  have f: "stopFlag sample_worker = 0" and o: "\<not> stopOnce sample_worker"
    by (simp_all add: sample_worker_def NewWorker_def)
  have p: "pcs ?s
       = [Finished (Some ErrQueueShutdown), Finished None, Finished (Some ErrQueueShutdown)]"
    by (simp add: run_def init_def step_def CompareAndSwapInt32_def stopOnce_Do_def
        sample_worker_def NewWorker_def numeral_eq_Suc)
  then have fin: "(0::nat) < 3 \<and> list_all finished (pcs ?s)" by (simp add: finished_def)
  from Shutdown_exactly_one_winner[OF f o refl, where exits="\<lambda>i t. True" and n=3
      and sched="[1, 0, 1, 2, 1, 0]"] fin
  obtain i where i: "i < 3" "pcs ?s ! i = Finished None"
    "trace ?s = map (Pair i) (shutdown_body sample_worker (\<lambda>t. True))"
    by blast
  from i(1,2) p have "i = 1" by (auto simp: less_Suc_eq numeral_eq_Suc)
  with i(3) have "trace ?s
       = [(1, CloseStop), (1, WaitRequeue ExitObserved 0), (1, RdbClose), (1, CloseTasks)]"
    by (simp add: shutdown_body_def sample_worker_def NewWorker_def)
  with f o p show ?thesis by simp
qed

end
